theory Spec2Isabelle
  imports Main "HOL-Library.AList" "HOL-Library.Multiset"
begin

section \<open>rosbag2pandas: a shallow embedding of \<^verbatim>\<open>rosbag2pandas.py\<close>\<close>

text \<open>
  The program reads every record of a bag, groups the serialized messages and their
  timestamps by topic, decodes each topic's messages with a worker pool, and writes one
  table per topic. Python exceptions are values of \<open>py_error\<close>; a function that can
  raise returns \<open>py_error + 'a\<close>, with \<open>Inl\<close> for the exception.

  Three libraries do work the program only calls: the bag reader and message decoder
  (\<^verbatim>\<open>rosbag2_py\<close>, \<^verbatim>\<open>rclpy\<close>, \<^verbatim>\<open>rosidl_runtime_py\<close>), \<^verbatim>\<open>pandas\<close>, and
  \<^verbatim>\<open>multiprocessing\<close>. The decoder and the bag's content are parameters. The pandas
  and pool calls are written out after the libraries' documented behaviour, each next
  to the source line that makes the call.
\<close>

subsection \<open>Errors\<close>

datatype py_error =
    IndexError
  | KeyError string
  | ValueError string
  | TypeError string
  | SystemExit int
  | LibraryError string

text \<open>
  A name between single quotes, as Python's messages print it.
\<close>

definition quoted :: "string \<Rightarrow> string" where
  "quoted s = [CHR 0x27] @ s @ [CHR 0x27]"

subsection \<open>The output file name (\<^verbatim>\<open>save_to_file\<close>, lines 50-52)\<close>

text \<open>
  \<^verbatim>\<open>file_name = (topic_name if topic_name[0] != "/" else topic_name.lstrip("/")).replace("/", "_")\<close>

  \<^verbatim>\<open>str.lstrip("/")\<close> removes every leading \<^verbatim>\<open>/\<close>; \<^verbatim>\<open>topic_name[0]\<close> raises
  \<^verbatim>\<open>IndexError\<close> on the empty string.
\<close>

definition lstrip :: "char \<Rightarrow> string \<Rightarrow> string" where
  "lstrip c s = dropWhile (\<lambda>x. x = c) s"

definition replace_char :: "char \<Rightarrow> char \<Rightarrow> string \<Rightarrow> string" where
  "replace_char old new s = map (\<lambda>x. if x = old then new else x) s"

definition file_name :: "string \<Rightarrow> py_error + string" where
  "file_name topic_name =
     (case topic_name of
        [] \<Rightarrow> Inl IndexError
      | c # _ \<Rightarrow>
          Inr (replace_char (CHR ''/'') (CHR ''_'')
                 (if c \<noteq> CHR ''/'' then topic_name else lstrip (CHR ''/'') topic_name)))"

text \<open>
  The base name as the specification words it: one leading separator is stripped if
  present, then every remaining separator becomes an underscore.
\<close>

definition spec_base_name :: "string \<Rightarrow> string" where
  "spec_base_name topic_name =
     replace_char (CHR ''/'') (CHR ''_'')
       (case topic_name of [] \<Rightarrow> [] | c # rest \<Rightarrow> if c = CHR ''/'' then rest else topic_name)"

subsection \<open>Decoded messages and their flattening (\<^verbatim>\<open>pd.json_normalize\<close>, line 45)\<close>

text \<open>
  A decoded message is an ordered dictionary from field names to values; a value is a
  nested dictionary (a field of message type) or anything else (a leaf: a number, a
  string, an array).
\<close>

datatype 'v msg_value = Leaf 'v | Nested "(string \<times> 'v msg_value) list"

type_synonym 'v ordered_dict = "(string \<times> 'v msg_value) list"

text \<open>
  \<^verbatim>\<open>new_key = f"{key_string}{separator}{key}"\<close>, and at the top level (empty
  \<^verbatim>\<open>key_string\<close>) the leading separator is removed again.
\<close>

definition new_key :: "string \<Rightarrow> string \<Rightarrow> string" where
  "new_key key_string k = (if key_string = [] then k else key_string @ ''.'' @ k)"

text \<open>
  pandas' \<^verbatim>\<open>_normalise_json\<close>: a dictionary recurses into its items with the extended
  key; any other value is stored under the key built so far. Storing into a Python
  dictionary keeps the position of a key that is already there and appends a new one:
  \<open>AList.update\<close>.
\<close>

fun normalise_json :: "'v msg_value \<Rightarrow> string \<Rightarrow> (string \<times> 'v) list \<Rightarrow> (string \<times> 'v) list"
  and normalise_items ::
    "(string \<times> 'v msg_value) list \<Rightarrow> string \<Rightarrow> (string \<times> 'v) list \<Rightarrow> (string \<times> 'v) list"
where
  "normalise_json (Leaf v) key_string normalized_dict = AList.update key_string v normalized_dict"
| "normalise_json (Nested kvs) key_string normalized_dict =
     normalise_items kvs key_string normalized_dict"
| "normalise_items [] key_string normalized_dict = normalized_dict"
| "normalise_items ((k, v) # rest) key_string normalized_dict =
     normalise_items rest key_string (normalise_json v (new_key key_string k) normalized_dict)"

fun top_dict :: "'v ordered_dict \<Rightarrow> (string \<times> 'v) list \<Rightarrow> (string \<times> 'v) list" where
  "top_dict [] acc = acc"
| "top_dict ((k, Leaf v) # rest) acc = top_dict rest (AList.update k v acc)"
| "top_dict ((k, Nested kvs) # rest) acc = top_dict rest acc"

fun nested_items :: "'v ordered_dict \<Rightarrow> 'v ordered_dict" where
  "nested_items [] = []"
| "nested_items ((k, Leaf v) # rest) = nested_items rest"
| "nested_items ((k, Nested kvs) # rest) = (k, Nested kvs) # nested_items rest"

text \<open>
  pandas' \<^verbatim>\<open>_normalise_json_ordered\<close>: the top-level leaves first, then the flattened
  nested fields, merged as \<^verbatim>\<open>{**top_dict_, **nested_dict_}\<close>.
\<close>

definition dict_merge :: "(string \<times> 'v) list \<Rightarrow> (string \<times> 'v) list \<Rightarrow> (string \<times> 'v) list" where
  "dict_merge a b = fold (\<lambda>kv acc. AList.update (fst kv) (snd kv) acc) b a"

definition normalise_json_ordered :: "'v ordered_dict \<Rightarrow> (string \<times> 'v) list" where
  "normalise_json_ordered d =
     dict_merge (top_dict d []) (normalise_items (nested_items d) [] [])"

text \<open>
  \<^verbatim>\<open>DataFrame(list_of_dicts)\<close>: the columns are the keys in order of first
  appearance; a row has \<^verbatim>\<open>NaN\<close> (\<open>None\<close>) where its dictionary lacks the key.
\<close>

fun unique_keys :: "string list \<Rightarrow> string list \<Rightarrow> string list" where
  "unique_keys [] seen = seen"
| "unique_keys (k # ks) seen = unique_keys ks (if k \<in> set seen then seen else seen @ [k])"

record 'v frame =
  fcolumns :: "string list"
  frows :: "'v option list list"

definition json_normalize :: "'v ordered_dict list \<Rightarrow> 'v frame" where
  "json_normalize data =
     (let dicts = map normalise_json_ordered data;
          cols = unique_keys (concat (map (map fst) dicts)) []
      in \<lparr>fcolumns = cols, frows = map (\<lambda>d. map (map_of d) cols) dicts\<rparr>)"



subsection \<open>The joined, sorted table (\<^verbatim>\<open>save_to_file\<close>, lines 46-49)\<close>

text \<open>
  The joined table: the column names, the row labels, and the rows, each a timestamp
  with the message's cells. \<open>tcolumns\<close> is \<^verbatim>\<open>timestamp\<close> followed by the message
  columns.
\<close>

record 'v table =
  tcolumns :: "string list"
  tindex :: "nat list"
  trows :: "(int \<times> 'v option list) list"

text \<open>
  \<^verbatim>\<open>df_stamps.join(df_messages)\<close>: a left join on the row labels \<open>0..n-1\<close> of both
  frames. It raises \<^verbatim>\<open>ValueError\<close> when the frames share a column name (no suffix is
  given; the message is cut to its fixed part); a timestamp without a message gets
  \<^verbatim>\<open>NaN\<close> cells.
\<close>

definition join :: "int list \<Rightarrow> 'v frame \<Rightarrow> py_error + 'v table" where
  "join stamps df_messages =
     (if ''timestamp'' \<in> set (fcolumns df_messages)
      then Inl (ValueError ''columns overlap but no suffix specified'')
      else Inr \<lparr>tcolumns = ''timestamp'' # fcolumns df_messages,
                tindex = [0..<length stamps],
                trows = map (\<lambda>i. (stamps ! i,
                                   if i < length (frows df_messages) then frows df_messages ! i
                                   else replicate (length (fcolumns df_messages)) None))
                          [0..<length stamps]\<rparr>)"


definition sort_values :: "(int list \<Rightarrow> nat list) \<Rightarrow> 'v table \<Rightarrow> 'v table" where
  "sort_values argsort df =
     (let indexer = argsort (map fst (trows df))
      in df\<lparr>trows := map (\<lambda>i. trows df ! i) indexer, tindex := [0..<length indexer]\<rparr>)"

definition df_joined ::
  "(int list \<Rightarrow> nat list) \<Rightarrow> 'v ordered_dict list \<Rightarrow> int list \<Rightarrow> py_error + 'v table" where
  "df_joined argsort messages stamps =
     (case join stamps (json_normalize messages) of
        Inl e \<Rightarrow> Inl e
      | Inr df \<Rightarrow> Inr (sort_values argsort df))"

subsection \<open>\<^verbatim>\<open>save_to_file\<close> (lines 30-59)\<close>

text \<open>
  The argument \<^verbatim>\<open>data\<close> is the dictionary \<^verbatim>\<open>main\<close> builds, with its three keys. A
  write is recorded as the writer called, the folder, the file name and the table; the
  writers themselves (\<^verbatim>\<open>to_csv\<close>, \<^verbatim>\<open>to_parquet\<close>, \<^verbatim>\<open>to_pickle\<close>) are the library's.
  The chain of \<^verbatim>\<open>if\<close>/\<^verbatim>\<open>elif\<close> has no \<^verbatim>\<open>else\<close>: any other format writes nothing.
\<close>

record 'v save_data =
  data_topic_name :: string
  data_parsed_messages :: "'v ordered_dict list"
  data_message_stamps :: "int list"

datatype writer = To_csv | To_parquet | To_pickle

record 'v file_written =
  written_by :: writer
  folder :: string
  fname :: string
  content :: "'v table"

definition save_to_file ::
  "(int list \<Rightarrow> nat list) \<Rightarrow> string \<Rightarrow> string \<Rightarrow> 'v save_data \<Rightarrow> py_error + 'v file_written option"
where
  "save_to_file argsort file_format output_folder data =
     (case df_joined argsort (data_parsed_messages data) (data_message_stamps data) of
        Inl e \<Rightarrow> Inl e
      | Inr df \<Rightarrow>
          (case file_name (data_topic_name data) of
             Inl e \<Rightarrow> Inl e
           | Inr fn \<Rightarrow>
               if file_format = ''csv'' then
                 Inr (Some \<lparr>written_by = To_csv, folder = output_folder,
                            fname = fn @ ''.csv'', content = df\<rparr>)
               else if file_format = ''parquet'' then
                 Inr (Some \<lparr>written_by = To_parquet, folder = output_folder,
                            fname = fn @ ''.parquet'', content = df\<rparr>)
               else if file_format = ''pickle'' then
                 Inr (Some \<lparr>written_by = To_pickle, folder = output_folder,
                            fname = fn @ ''.pkl'', content = df\<rparr>)
               else Inr None))"

subsection \<open>\<^verbatim>\<open>parse_data\<close> (lines 16-27)\<close>

definition parse_data ::
  "('raw \<Rightarrow> 'ty \<Rightarrow> py_error + 'm) \<Rightarrow> ('m \<Rightarrow> 'v ordered_dict) \<Rightarrow> 'ty \<Rightarrow> 'raw
     \<Rightarrow> py_error + 'v ordered_dict"
where
  "parse_data deserialize_message message_to_ordereddict message_type data =
     (case deserialize_message data message_type of
        Inl e \<Rightarrow> Inl e
      | Inr msg \<Rightarrow> Inr (message_to_ordereddict msg))"

subsection \<open>The worker pool (\<^verbatim>\<open>multiprocessing.Pool\<close>, lines 141-152 and 163-172)\<close>

text \<open>
  \<^verbatim>\<open>args.cores\<close> is the integer \<^verbatim>\<open>cpu_count()\<close> by default and a string when given on
  the command line (the option declares no \<^verbatim>\<open>type\<close>). \<^verbatim>\<open>Pool(processes)\<close> compares
  \<^verbatim>\<open>processes < 1\<close>: a string raises \<^verbatim>\<open>TypeError\<close>, an integer below one
  \<^verbatim>\<open>ValueError\<close>.
\<close>

datatype cores = Cores_int int | Cores_str string

definition pool :: "cores \<Rightarrow> py_error + nat" where
  "pool processes =
     (case processes of
        Cores_str s \<Rightarrow>
          Inl (TypeError (quoted ''<'' @ '' not supported between instances of '' @
                 quoted ''str'' @ '' and '' @ quoted ''int''))
      | Cores_int n \<Rightarrow>
          if n < 1 then Inl (ValueError ''Number of processes must be at least 1'')
          else Inr (nat n))"

text \<open>
  \<^verbatim>\<open>pool.imap(func, iterable, chunksize)\<close> cuts the iterable into tasks of
  \<^verbatim>\<open>chunksize\<close> items (\<^verbatim>\<open>Pool._get_tasks\<close>), a worker maps the function over a task
  (\<^verbatim>\<open>mapstar\<close>, stopping at the first exception), and the iterator yields the tasks'
  results in the order of the tasks, whichever worker finishes first. \<^verbatim>\<open>list(...)\<close>
  collects them and re-raises the first exception it meets.
\<close>

function get_tasks :: "nat \<Rightarrow> 'a list \<Rightarrow> 'a list list" where
  "get_tasks n it =
     (if n = 0 \<or> it = [] then [] else take n it # get_tasks n (drop n it))"
  by pat_completeness auto
termination
  by (relation "measure (\<lambda>(n, it). length it)") auto

declare get_tasks.simps [simp del]

fun mapstar :: "('a \<Rightarrow> py_error + 'b) \<Rightarrow> 'a list \<Rightarrow> py_error + 'b list" where
  "mapstar f [] = Inr []"
| "mapstar f (x # xs) =
     (case f x of
        Inl e \<Rightarrow> Inl e
      | Inr y \<Rightarrow> (case mapstar f xs of Inl e \<Rightarrow> Inl e | Inr ys \<Rightarrow> Inr (y # ys)))"

fun imap_list :: "(py_error + 'b list) list \<Rightarrow> py_error + 'b list" where
  "imap_list [] = Inr []"
| "imap_list (Inl e # rest) = Inl e"
| "imap_list (Inr ys # rest) =
     (case imap_list rest of Inl e \<Rightarrow> Inl e | Inr zs \<Rightarrow> Inr (ys @ zs))"

definition pool_imap :: "('a \<Rightarrow> py_error + 'b) \<Rightarrow> 'a list \<Rightarrow> nat \<Rightarrow> py_error + 'b list" where
  "pool_imap func iterable chunksize = imap_list (map (mapstar func) (get_tasks chunksize iterable))"

subsection \<open>The bag and the collection pass (\<^verbatim>\<open>main\<close>, lines 109-135)\<close>

text \<open>
  \<^verbatim>\<open>topic_type_from_name\<close> walks \<^verbatim>\<open>reader.get_all_topics_and_types()\<close>, a list of
  (name, type name) pairs, and raises \<^verbatim>\<open>ValueError\<close> when no name matches.
\<close>

fun topic_type_from_name :: "(string \<times> string) list \<Rightarrow> string \<Rightarrow> py_error + string" where
  "topic_type_from_name [] topic =
     Inl (ValueError (''Topic '' @ quoted topic @ '' was not found in the bag''))"
| "topic_type_from_name ((name, type_name) # rest) topic =
     (if name = topic then Inr type_name else topic_type_from_name rest topic)"

record ('ty, 'raw) topic_entry =
  message_type :: 'ty
  raw_data :: "'raw list"

text \<open>
  The two dictionaries of \<^verbatim>\<open>main\<close>, as association lists in insertion order (the
  order in which Python iterates a dictionary's keys).
\<close>

record ('ty, 'raw) collected =
  raw_message_data :: "(string \<times> ('ty, 'raw) topic_entry) list"
  message_stamps :: "(string \<times> int list) list"

text \<open>
  One turn of the \<^verbatim>\<open>while reader.has_next()\<close> loop, for the record
  \<^verbatim>\<open>(topic, data, timestamp)\<close> that \<^verbatim>\<open>read_next\<close> returned. The dictionary entry is
  assigned only after \<^verbatim>\<open>topic_type_from_name\<close> and \<^verbatim>\<open>get_message\<close> have returned, so
  an exception leaves both dictionaries as they were.
\<close>

definition read_record ::
  "(string \<Rightarrow> py_error + 'ty) \<Rightarrow> (string \<times> string) list \<Rightarrow> string \<times> 'raw \<times> int
     \<Rightarrow> ('ty, 'raw) collected \<Rightarrow> py_error + ('ty, 'raw) collected"
where
  "read_record get_message topics_and_types rec st =
     (case rec of (topic, data, timestamp) \<Rightarrow>
        (case (if topic \<notin> fst ` set (raw_message_data st) then
                 (case topic_type_from_name topics_and_types topic of
                    Inl e \<Rightarrow> Inl e
                  | Inr type_name \<Rightarrow>
                      (case get_message type_name of
                         Inl e \<Rightarrow> Inl e
                       | Inr ty \<Rightarrow>
                           Inr (AList.update topic \<lparr>message_type = ty, raw_data = []\<rparr>
                                  (raw_message_data st))))
               else Inr (raw_message_data st)) of
           Inl e \<Rightarrow> Inl e
         | Inr raw \<Rightarrow>
             (let stamps = (if topic \<notin> fst ` set (message_stamps st)
                            then AList.update topic [] (message_stamps st)
                            else message_stamps st)
              in Inr \<lparr>raw_message_data =
                         AList.map_entry topic (\<lambda>e. e\<lparr>raw_data := raw_data e @ [data]\<rparr>) raw,
                       message_stamps =
                         AList.map_entry topic (\<lambda>ts. ts @ [timestamp]) stamps\<rparr>)))"

fun read_all ::
  "(string \<Rightarrow> py_error + 'ty) \<Rightarrow> (string \<times> string) list \<Rightarrow> (string \<times> 'raw \<times> int) list
     \<Rightarrow> ('ty, 'raw) collected \<Rightarrow> py_error + ('ty, 'raw) collected"
where
  "read_all get_message topics_and_types [] st = Inr st"
| "read_all get_message topics_and_types (rec # rest) st =
     (case read_record get_message topics_and_types rec st of
        Inl e \<Rightarrow> Inl e
      | Inr st' \<Rightarrow> read_all get_message topics_and_types rest st')"

definition no_topics :: "('ty, 'raw) collected" where
  "no_topics = \<lparr>raw_message_data = [], message_stamps = []\<rparr>"

subsection \<open>The decode stage (\<^verbatim>\<open>main\<close>, lines 137-152)\<close>

text \<open>
  For each topic, in the dictionary's order: a new pool, then
  \<^verbatim>\<open>list(pool.imap(partial(parse_data, message_type), raw_data, chunksize=500))\<close>.
\<close>

definition parse_topic ::
  "cores \<Rightarrow> ('ty \<Rightarrow> 'raw \<Rightarrow> py_error + 'v ordered_dict) \<Rightarrow> ('ty, 'raw) topic_entry
     \<Rightarrow> py_error + 'v ordered_dict list"
where
  "parse_topic n_cores parse entry =
     (case pool n_cores of
        Inl e \<Rightarrow> Inl e
      | Inr workers \<Rightarrow> pool_imap (parse (message_type entry)) (raw_data entry) 500)"

fun parse_topics ::
  "cores \<Rightarrow> ('ty \<Rightarrow> 'raw \<Rightarrow> py_error + 'v ordered_dict)
     \<Rightarrow> (string \<times> ('ty, 'raw) topic_entry) list \<Rightarrow> (string \<times> 'v ordered_dict list) list
     \<Rightarrow> py_error + (string \<times> 'v ordered_dict list) list"
where
  "parse_topics n_cores parse [] parsed = Inr parsed"
| "parse_topics n_cores parse ((topic, entry) # rest) parsed =
     (case parse_topic n_cores parse entry of
        Inl e \<Rightarrow> Inl e
      | Inr ms \<Rightarrow> parse_topics n_cores parse rest (AList.update topic ms parsed))"

subsection \<open>The write stage (\<^verbatim>\<open>main\<close>, lines 154-172)\<close>

fun topic_save_data ::
  "(string \<times> 'v ordered_dict list) list \<Rightarrow> (string \<times> int list) list
     \<Rightarrow> py_error + 'v save_data list"
where
  "topic_save_data [] stamps = Inr []"
| "topic_save_data ((topic, ms) # rest) stamps =
     (case map_of stamps topic of
        None \<Rightarrow> Inl (KeyError topic)
      | Some ts \<Rightarrow>
          (case topic_save_data rest stamps of
             Inl e \<Rightarrow> Inl e
           | Inr ds \<Rightarrow>
               Inr (\<lparr>data_topic_name = topic, data_parsed_messages = ms,
                     data_message_stamps = ts\<rparr> # ds)))"

text \<open>
  What the tasks ahead of the first failing one returned: \<^verbatim>\<open>list(pool.imap(...))\<close>
  has received their results when it meets the exception. Tasks behind the failing one
  may have run as well; the file list of a failed write stage is a lower bound.
\<close>

fun completed :: "('a \<Rightarrow> py_error + 'b) \<Rightarrow> 'a list \<Rightarrow> 'b list" where
  "completed f [] = []"
| "completed f (x # xs) = (case f x of Inl e \<Rightarrow> [] | Inr y \<Rightarrow> y # completed f xs)"

fun files_of :: "'w option list \<Rightarrow> 'w list" where
  "files_of [] = []"
| "files_of (None # rest) = files_of rest"
| "files_of (Some w # rest) = w # files_of rest"

subsection \<open>The command line and \<^verbatim>\<open>main\<close> (lines 62-172)\<close>

text \<open>
  The command line as \<^verbatim>\<open>argparse\<close> sees it: two positional arguments and three
  options, each given or not. An option declared with \<^verbatim>\<open>choices\<close> is checked when it
  is given; a value outside the choices makes \<^verbatim>\<open>parse_args\<close> print the usage and exit
  with status 2.
\<close>

record cli =
  cli_input :: string
  cli_output :: string
  cli_s :: "string option"
  cli_format :: "string option"
  cli_cores :: "string option"

record namespace =
  ns_input :: string
  ns_output :: string
  ns_s :: string
  ns_format :: string
  ns_cores :: cores

definition choice :: "string list \<Rightarrow> string \<Rightarrow> string option \<Rightarrow> py_error + string" where
  "choice choices dflt given =
     (case given of
        None \<Rightarrow> Inr dflt
      | Some v \<Rightarrow> if v \<in> set choices then Inr v else Inl (SystemExit 2))"

definition parse_args :: "int \<Rightarrow> cli \<Rightarrow> py_error + namespace" where
  "parse_args ncpu argv =
     (case choice [''sqlite3'', ''mcap''] ''mcap'' (cli_s argv) of
        Inl e \<Rightarrow> Inl e
      | Inr s \<Rightarrow>
          (case choice [''csv'', ''parquet'', ''pickle''] ''csv'' (cli_format argv) of
             Inl e \<Rightarrow> Inl e
           | Inr f \<Rightarrow>
               Inr \<lparr>ns_input = cli_input argv, ns_output = cli_output argv, ns_s = s,
                     ns_format = f,
                     ns_cores = (case cli_cores argv of
                                   None \<Rightarrow> Cores_int ncpu
                                 | Some c \<Rightarrow> Cores_str c)\<rparr>))"

text \<open>
  What \<^verbatim>\<open>main\<close> is run against: the machine's \<^verbatim>\<open>cpu_count()\<close>, the bag (its topic
  catalogue and the records \<^verbatim>\<open>read_next\<close> yields, in storage order), and the library
  functions the program calls.
\<close>

record ('ty, 'raw, 'm, 'v) world =
  cpu_count :: int
  get_all_topics_and_types :: "(string \<times> string) list"
  bag_records :: "(string \<times> 'raw \<times> int) list"
  get_message :: "string \<Rightarrow> py_error + 'ty"
  deserialize_message :: "'raw \<Rightarrow> 'ty \<Rightarrow> py_error + 'm"
  message_to_ordereddict :: "'m \<Rightarrow> 'v ordered_dict"
  argsort :: "int list \<Rightarrow> nat list"

text \<open>
  The outcome of a run: the exception that ended it, if any, and its effects on the
  file system and the bag.
\<close>

record 'v run =
  raised :: "py_error option"
  output_dir_created :: bool
  bag_opened :: bool
  files_written :: "'v file_written list"

definition aborted :: "py_error \<Rightarrow> bool \<Rightarrow> 'v file_written list \<Rightarrow> 'v run" where
  "aborted e started files =
     \<lparr>raised = Some e, output_dir_created = started, bag_opened = started,
      files_written = files\<rparr>"

definition main :: "('ty, 'raw, 'm, 'v) world \<Rightarrow> cli \<Rightarrow> 'v run" where
  "main w argv =
     (case parse_args (cpu_count w) argv of
        Inl e \<Rightarrow> aborted e False []
      | Inr args \<Rightarrow>
     (case read_all (get_message w) (get_all_topics_and_types w) (bag_records w) no_topics of
        Inl e \<Rightarrow> aborted e True []
      | Inr st \<Rightarrow>
     (case parse_topics (ns_cores args)
             (parse_data (deserialize_message w) (message_to_ordereddict w))
             (raw_message_data st) [] of
        Inl e \<Rightarrow> aborted e True []
      | Inr parsed_messages \<Rightarrow>
     (case topic_save_data parsed_messages (message_stamps st) of
        Inl e \<Rightarrow> aborted e True []
      | Inr ds \<Rightarrow>
     (case pool (ns_cores args) of
        Inl e \<Rightarrow> aborted e True []
      | Inr workers \<Rightarrow>
     (let partial_save_to_file = save_to_file (argsort w) (ns_format args) (ns_output args)
      in case pool_imap partial_save_to_file ds 1 of
           Inl e \<Rightarrow> aborted e True (files_of (completed partial_save_to_file ds))
         | Inr results \<Rightarrow>
             \<lparr>raised = None, output_dir_created = True, bag_opened = True,
              files_written = files_of results\<rparr>))))))"

subsection \<open>Two index sorts that meet the library's contract\<close>

text \<open>
  A stable one (what \<^verbatim>\<open>kind="stable"\<close> would give) and one that puts later rows first
  among equal keys.
\<close>

definition argsort_stable :: "int list \<Rightarrow> nat list" where
  "argsort_stable keys = sort_key (\<lambda>i. keys ! i) [0..<length keys]"


subsection \<open>A small bag to run the program on\<close>

text \<open>
  Two topics, \<^verbatim>\<open>/odom\<close> with three records (timestamps 30, 10, 20) and \<^verbatim>\<open>/imu\<close> with
  one (timestamp 5); a decoder that cannot fail; a message with one nested and one
  top-level field.
\<close>

definition demo_world :: "(string, int, int, int) world" where
  "demo_world =
     \<lparr>cpu_count = 4,
      get_all_topics_and_types =
        [(''/odom'', ''nav_msgs/msg/Odometry''), (''/imu'', ''sensor_msgs/msg/Imu'')],
      bag_records = [(''/odom'', 1, 30), (''/imu'', 2, 5), (''/odom'', 3, 10), (''/odom'', 4, 20)],
      get_message = (\<lambda>type_name. Inr type_name),
      deserialize_message = (\<lambda>data ty. Inr data),
      message_to_ordereddict = (\<lambda>m. [(''header'', Nested [(''seq'', Leaf m)]), (''x'', Leaf (2 * m))]),
      argsort = argsort_stable\<rparr>"

definition demo_cli :: cli where
  "demo_cli =
     \<lparr>cli_input = ''bag'', cli_output = ''out'', cli_s = None, cli_format = None,
      cli_cores = None\<rparr>"

subsection \<open>Reading the collected dictionaries\<close>

text \<open>
  The two sequences of a channel in the collected state: \<^verbatim>\<open>raw_message_data[topic]["raw_data"]\<close>
  and \<^verbatim>\<open>message_stamps[topic]\<close>, empty for a topic that is not a key.
\<close>

definition raw_of :: "('ty, 'raw) collected \<Rightarrow> string \<Rightarrow> 'raw list" where
  "raw_of st topic =
     (case map_of (raw_message_data st) topic of None \<Rightarrow> [] | Some e \<Rightarrow> raw_data e)"

definition stamps_of :: "('ty, 'raw) collected \<Rightarrow> string \<Rightarrow> int list" where
  "stamps_of st topic =
     (case map_of (message_stamps st) topic of None \<Rightarrow> [] | Some ts \<Rightarrow> ts)"

text \<open>
  Both dictionaries have the same keys in the same order, each once, and entry by entry
  as many raw records as timestamps.
\<close>

definition lengths_agree :: "('ty, 'raw) collected \<Rightarrow> bool" where
  "lengths_agree st =
     (distinct (map fst (raw_message_data st)) \<and>
      list_all2 (\<lambda>re se. fst re = fst se \<and> length (raw_data (snd re)) = length (snd se))
        (raw_message_data st) (message_stamps st))"

subsection \<open>The output file's extension\<close>


section \<open>Properties\<close>

subsection \<open>The output file name\<close>

lemma file_name_nonempty:
  "topic_name \<noteq> [] \<Longrightarrow>
   file_name topic_name = Inr (replace_char (CHR ''/'') (CHR ''_'') (lstrip (CHR ''/'') topic_name))"
  by (cases topic_name) (simp_all add: file_name_def lstrip_def)

lemma file_name_Inl_iff: "file_name topic_name = Inl e \<longleftrightarrow> topic_name = [] \<and> e = IndexError"
  by (cases topic_name) (auto simp: file_name_def)

lemma spec_base_name_agrees:
  "topic_name \<noteq> [] \<Longrightarrow> take 2 topic_name \<noteq> ''//'' \<Longrightarrow>
   file_name topic_name = Inr (spec_base_name topic_name)"
proof (cases topic_name)
  case Nil
  assume "topic_name \<noteq> []"
  with Nil show ?thesis by simp
next
  case (Cons c rest)
  assume two: "take 2 topic_name \<noteq> ''//''"
  show ?thesis
  proof (cases "c = CHR ''/''")
    case False
    with Cons show ?thesis by (simp add: file_name_def spec_base_name_def)
  next
    case True
    with Cons two have "rest = [] \<or> hd rest \<noteq> CHR ''/''"
      by (cases rest) (simp_all add: numeral_2_eq_2)
    then have "dropWhile (\<lambda>x. x = CHR ''/'') rest = rest"
      by (cases rest) auto
    with Cons True show ?thesis
      by (simp add: file_name_def spec_base_name_def lstrip_def)
  qed
qed

text \<open>
  Claim C2, as amended. For every non-empty topic name the file base name is the name
  with all its leading separators stripped and every remaining separator replaced by an
  underscore. It is the specification's base name (one leading separator stripped)
  whenever the name does not begin with two separators.
\<close>

theorem file_name_strips_leading_separators:
  "topic_name \<noteq> [] \<Longrightarrow>
   file_name topic_name =
     Inr (replace_char (CHR ''/'') (CHR ''_'') (dropWhile (\<lambda>c. c = CHR ''/'') topic_name)) \<and>
   (take 2 topic_name \<noteq> ''//'' \<longrightarrow> file_name topic_name = Inr (spec_base_name topic_name))"
  using file_name_nonempty [of topic_name] spec_base_name_agrees [of topic_name]
  by (simp add: lstrip_def)

theorem file_name_strips_leading_separators_witness:
  "file_name ''/a/b'' = Inr ''a_b'' \<and> file_name ''a/b'' = Inr ''a_b'' \<and>
   file_name ''/a/b/c'' = Inr (spec_base_name ''/a/b/c'') \<and> file_name ''//a'' = Inr ''a''"
  using file_name_strips_leading_separators [of "''/a/b''"]
    file_name_strips_leading_separators [of "''a/b''"]
    file_name_strips_leading_separators [of "''/a/b/c''"]
    file_name_strips_leading_separators [of "''//a''"]
  by (simp add: replace_char_def spec_base_name_def)

text \<open>
  Claim C2 as stated fails: a second leading separator is stripped too (the
  specification's base name of \<^verbatim>\<open>//a\<close> is \<^verbatim>\<open>_a\<close>), and the empty name has no base
  name at all.
\<close>

theorem second_leading_separator_is_stripped:
  "file_name ''//a'' = Inr ''a'' \<and> spec_base_name ''//a'' = ''_a'' \<and>
   file_name [] = Inl IndexError"
  by (simp add: file_name_def spec_base_name_def replace_char_def lstrip_def)

subsection \<open>The command line\<close>

text \<open>
  Claim C7. An output format outside csv, parquet and pickle makes \<^verbatim>\<open>parse_args\<close> exit
  with status 2: the output directory is not created, the bag is not opened, and no
  file is written.
\<close>

theorem unsupported_format_rejected:
  "cli_format argv = Some f \<Longrightarrow> f \<notin> {''csv'', ''parquet'', ''pickle''} \<Longrightarrow>
   main w argv = \<lparr>raised = Some (SystemExit 2), output_dir_created = False, bag_opened = False,
                  files_written = []\<rparr>"
  by (cases "cli_s argv") (auto simp: main_def parse_args_def choice_def aborted_def)

theorem unsupported_format_rejected_witness:
  "cli_format (demo_cli\<lparr>cli_format := Some ''xml''\<rparr>) = Some ''xml'' \<and>
   ''xml'' \<notin> {''csv'', ''parquet'', ''pickle''} \<and>
   main demo_world (demo_cli\<lparr>cli_format := Some ''xml''\<rparr>) =
     \<lparr>raised = Some (SystemExit 2), output_dir_created = False, bag_opened = False,
      files_written = []\<rparr>"
  using unsupported_format_rejected [of "demo_cli\<lparr>cli_format := Some ''xml''\<rparr>" "''xml''" demo_world]
  by simp

subsection \<open>The worker pool and the decode stage\<close>

lemma mapstar_Inr_iff: "mapstar f xs = Inr ys \<longleftrightarrow> map f xs = map Inr ys"
proof (induction xs arbitrary: ys)
  case Nil
  show ?case by auto
next
  case (Cons x xs)
  show ?case
  proof (cases "f x")
    case (Inl e)
    then show ?thesis by (cases ys) auto
  next
    case (Inr y)
    show ?thesis
    proof (cases "mapstar f xs")
      case (Inl e)
      have "map f xs \<noteq> map Inr zs" for zs
        using Cons.IH [of zs] Inl by simp
      with Inl Inr show ?thesis by (cases ys) auto
    next
      case r: (Inr zs)
      have "zs = ys' \<longleftrightarrow> map f xs = map Inr ys'" for ys'
        using Cons.IH [of ys'] r by simp
      with r Inr show ?thesis by (cases ys) auto
    qed
  qed
qed

lemma mapstar_append:
  "mapstar f (xs @ ys) =
     (case mapstar f xs of
        Inl e \<Rightarrow> Inl e
      | Inr as \<Rightarrow> (case mapstar f ys of Inl e \<Rightarrow> Inl e | Inr bs \<Rightarrow> Inr (as @ bs)))"
  by (induction xs) (auto split: sum.splits)

lemma imap_list_Cons:
  "imap_list (r # rest) =
     (case r of
        Inl e \<Rightarrow> Inl e
      | Inr ys \<Rightarrow> (case imap_list rest of Inl e \<Rightarrow> Inl e | Inr zs \<Rightarrow> Inr (ys @ zs)))"
  by (cases r) simp_all

lemma pool_imap_mapstar: "0 < n \<Longrightarrow> pool_imap f xs n = mapstar f xs"
proof (induction n xs rule: get_tasks.induct)
  case (1 n it)
  show ?case
  proof (cases "it = []")
    case True
    then show ?thesis by (subst pool_imap_def, subst get_tasks.simps) simp
  next
    case False
    with "1.prems" have tasks: "get_tasks n it = take n it # get_tasks n (drop n it)"
      by (subst get_tasks.simps) simp
    from False "1.prems" "1.IH" have IH: "pool_imap f (drop n it) n = mapstar f (drop n it)"
      by simp
    have "mapstar f it = mapstar f (take n it @ drop n it)" by simp
    also have "\<dots> = (case mapstar f (take n it) of
        Inl e \<Rightarrow> Inl e
      | Inr as \<Rightarrow> (case mapstar f (drop n it) of Inl e \<Rightarrow> Inl e | Inr bs \<Rightarrow> Inr (as @ bs)))"
      by (rule mapstar_append)
    finally have split: "mapstar f it = (case mapstar f (take n it) of
        Inl e \<Rightarrow> Inl e
      | Inr as \<Rightarrow> (case mapstar f (drop n it) of Inl e \<Rightarrow> Inl e | Inr bs \<Rightarrow> Inr (as @ bs)))" .
    have "pool_imap f it n = imap_list (mapstar f (take n it) # map (mapstar f) (get_tasks n (drop n it)))"
      unfolding pool_imap_def by (subst tasks) simp
    also have "\<dots> = (case mapstar f (take n it) of
        Inl e \<Rightarrow> Inl e
      | Inr as \<Rightarrow> (case pool_imap f (drop n it) n of Inl e \<Rightarrow> Inl e | Inr bs \<Rightarrow> Inr (as @ bs)))"
      unfolding pool_imap_def by (rule imap_list_Cons)
    finally show ?thesis
      unfolding IH split .
  qed
qed

lemma map_Inr_nth:
  "map f xs = map Inr ys \<Longrightarrow> length ys = length xs \<and> (\<forall>i<length xs. f (xs ! i) = Inr (ys ! i))"
proof
  assume eq: "map f xs = map Inr ys"
  then have "length (map f xs) = length (map Inr ys)" by simp
  then show len: "length ys = length xs" by simp
  show "\<forall>i<length xs. f (xs ! i) = Inr (ys ! i)"
  proof (intro allI impI)
    fix i assume i: "i < length xs"
    then have "f (xs ! i) = map f xs ! i" by simp
    also have "\<dots> = map Inr ys ! i" using eq by simp
    also have "\<dots> = Inr (ys ! i)" using i len by simp
    finally show "f (xs ! i) = Inr (ys ! i)" .
  qed
qed

lemma parse_topic_Inr_iff:
  "parse_topic n_cores parse entry = Inr ms \<longleftrightarrow>
     (\<exists>workers. pool n_cores = Inr workers) \<and>
     map (parse (message_type entry)) (raw_data entry) = map Inr ms"
  by (cases "pool n_cores") (simp_all add: parse_topic_def pool_imap_mapstar mapstar_Inr_iff)

lemma update_new_key: "k \<notin> fst ` set al \<Longrightarrow> AList.update k v al = al @ [(k, v)]"
  by (induction al) auto

lemma parse_topics_acc:
  "parse_topics n_cores parse raw acc = Inr parsed \<Longrightarrow> distinct (map fst acc @ map fst raw) \<Longrightarrow>
   \<exists>new. parsed = acc @ new \<and>
     list_all2 (\<lambda>te tm. fst tm = fst te \<and> parse_topic n_cores parse (snd te) = Inr (snd tm)) raw new"
proof (induction raw arbitrary: acc)
  case Nil
  then show ?case by simp
next
  case (Cons a raw)
  obtain topic entry where a: "a = (topic, entry)" by (cases a)
  from Cons.prems(1) a obtain ms where ms: "parse_topic n_cores parse entry = Inr ms"
    and rest: "parse_topics n_cores parse raw (AList.update topic ms acc) = Inr parsed"
    by (auto split: sum.splits)
  from Cons.prems(2) a have new: "topic \<notin> fst ` set acc" by auto
  then have upd: "AList.update topic ms acc = acc @ [(topic, ms)]" by (rule update_new_key)
  from Cons.prems(2) a have "distinct (map fst (acc @ [(topic, ms)]) @ map fst raw)" by auto
  with Cons.IH [of "acc @ [(topic, ms)]"] rest upd obtain new' where
    "parsed = (acc @ [(topic, ms)]) @ new'"
    "list_all2 (\<lambda>te tm. fst tm = fst te \<and> parse_topic n_cores parse (snd te) = Inr (snd tm)) raw new'"
    by auto
  with a ms show ?case by (intro exI [of _ "(topic, ms) # new'"]) simp
qed

lemma parse_topics_all:
  "parse_topics n_cores parse raw [] = Inr parsed \<Longrightarrow> distinct (map fst raw) \<Longrightarrow>
   list_all2 (\<lambda>te tm. fst tm = fst te \<and> parse_topic n_cores parse (snd te) = Inr (snd tm)) raw parsed"
  using parse_topics_acc [of n_cores parse raw "[]" parsed] by auto

text \<open>
  Claim C3. What the decode stage returns for a topic has as many messages as the topic
  has raw records, and its i-th message is \<^verbatim>\<open>parse_data\<close> of the i-th raw record; this
  holds for every topic of \<^verbatim>\<open>raw_message_data\<close>. The stage returns exactly when the
  pool can be created and every record decodes.
\<close>

theorem decode_stage_keeps_order:
  "(parse_topic n_cores parse entry = Inr ms \<longrightarrow>
      length ms = length (raw_data entry) \<and>
      (\<forall>i<length (raw_data entry). parse (message_type entry) (raw_data entry ! i) = Inr (ms ! i))) \<and>
   (parse_topics n_cores parse raw [] = Inr parsed \<longrightarrow> distinct (map fst raw) \<longrightarrow>
      list_all2 (\<lambda>te tm. fst tm = fst te \<and> length (snd tm) = length (raw_data (snd te)) \<and>
         (\<forall>i<length (raw_data (snd te)).
            parse (message_type (snd te)) (raw_data (snd te) ! i) = Inr (snd tm ! i))) raw parsed) \<and>
   ((\<exists>workers. pool n_cores = Inr workers) \<and>
      map (parse (message_type entry)) (raw_data entry) = map Inr ms \<longrightarrow>
      parse_topic n_cores parse entry = Inr ms)"
proof (intro conjI impI)
  assume "parse_topic n_cores parse entry = Inr ms"
  then have "map (parse (message_type entry)) (raw_data entry) = map Inr ms"
    by (simp add: parse_topic_Inr_iff)
  from map_Inr_nth [OF this]
  show "length ms = length (raw_data entry)"
    and "\<forall>i<length (raw_data entry). parse (message_type entry) (raw_data entry ! i) = Inr (ms ! i)"
    by simp_all
next
  assume "parse_topics n_cores parse raw [] = Inr parsed" "distinct (map fst raw)"
  then have "list_all2 (\<lambda>te tm. fst tm = fst te \<and> parse_topic n_cores parse (snd te) = Inr (snd tm)) raw parsed"
    by (rule parse_topics_all)
  then show "list_all2 (\<lambda>te tm. fst tm = fst te \<and> length (snd tm) = length (raw_data (snd te)) \<and>
         (\<forall>i<length (raw_data (snd te)).
            parse (message_type (snd te)) (raw_data (snd te) ! i) = Inr (snd tm ! i))) raw parsed"
    by (rule list_all2_mono) (auto simp: parse_topic_Inr_iff dest: map_Inr_nth)
next
  assume "(\<exists>workers. pool n_cores = Inr workers) \<and>
      map (parse (message_type entry)) (raw_data entry) = map Inr ms"
  then show "parse_topic n_cores parse entry = Inr ms"
    by (simp add: parse_topic_Inr_iff)
qed


theorem decode_stage_keeps_order_witness:
  "parse_topic (Cores_int 4) (\<lambda>ty d. Inr [(''x'', Leaf (d::int))])
      \<lparr>message_type = ''t'', raw_data = [7, 8, 9]\<rparr> =
     Inr [[(''x'', Leaf 7)], [(''x'', Leaf 8)], [(''x'', Leaf 9)]] \<and>
   length [[(''x'', Leaf (7::int))], [(''x'', Leaf 8)], [(''x'', Leaf 9)]] = length [7, 8, 9 :: int] \<and>
   (\<lambda>ty d. Inr [(''x'', Leaf (d::int))]) ''t'' ([7, 8, 9] ! 2) =
      (Inr ([[(''x'', Leaf 7)], [(''x'', Leaf 8)], [(''x'', Leaf 9)]] ! 2) :: py_error + int ordered_dict) \<and>
   parse_topics (Cores_int 4) (\<lambda>ty d. Inr [(''x'', Leaf (d::int))])
      [(''/a'', \<lparr>message_type = ''t'', raw_data = [7, 8]\<rparr>), (''/b'', \<lparr>message_type = ''t'', raw_data = [9]\<rparr>)] [] =
     Inr [(''/a'', [[(''x'', Leaf 7)], [(''x'', Leaf 8)]]), (''/b'', [[(''x'', Leaf 9)]])] \<and>
   parse_topic (Cores_str ''4'') (\<lambda>ty d. Inr [(''x'', Leaf (d::int))])
      \<lparr>message_type = ''t'', raw_data = [7, 8, 9]\<rparr> =
     Inl (TypeError (quoted ''<'' @ '' not supported between instances of '' @
            quoted ''str'' @ '' and '' @ quoted ''int''))"
  using decode_stage_keeps_order [of "Cores_int 4" "\<lambda>ty d. Inr [(''x'', Leaf (d::int))]"
      "\<lparr>message_type = ''t'', raw_data = [7, 8, 9]\<rparr>"
      "[[(''x'', Leaf 7)], [(''x'', Leaf 8)], [(''x'', Leaf 9)]]"
      "[(''/a'', \<lparr>message_type = ''t'', raw_data = [7, 8]\<rparr>), (''/b'', \<lparr>message_type = ''t'', raw_data = [9]\<rparr>)]"
      "[(''/a'', [[(''x'', Leaf 7)], [(''x'', Leaf 8)]]), (''/b'', [[(''x'', Leaf 9)]])]"]
  by (simp add: parse_topic_def pool_def pool_imap_mapstar)

subsection \<open>The collection pass\<close>

lemma map_fst_map_entry: "map fst (AList.map_entry k f xs) = map fst xs"
  by (induction xs) auto

lemma list_all2_map_entry:
  assumes "list_all2 P xs ys"
    and "\<And>x y. P x y \<Longrightarrow> fst x = fst y"
    and "\<And>x y. P x y \<Longrightarrow> fst x = k \<Longrightarrow> P (k, f (snd x)) (k, g (snd y))"
  shows "list_all2 P (AList.map_entry k f xs) (AList.map_entry k g ys)"
  using assms(1)
proof (induction rule: list_all2_induct)
  case Nil
  show ?case by simp
next
  case (Cons x xs y ys)
  with assms(2,3) show ?case by auto
qed

lemma list_all2_keys:
  "list_all2 (\<lambda>re se. fst re = fst se \<and> Q re se) xs ys \<Longrightarrow> map fst xs = map fst ys"
  by (induction rule: list_all2_induct) auto

lemma read_record_seen:
  "topic \<in> fst ` set (raw_message_data st) \<Longrightarrow> lengths_agree st \<Longrightarrow>
   read_record gm cat (topic, d, t) st =
     Inr \<lparr>raw_message_data =
            AList.map_entry topic (\<lambda>e. e\<lparr>raw_data := raw_data e @ [d]\<rparr>) (raw_message_data st),
          message_stamps = AList.map_entry topic (\<lambda>ts. ts @ [t]) (message_stamps st)\<rparr>"
proof -
  assume seen: "topic \<in> fst ` set (raw_message_data st)" and inv: "lengths_agree st"
  from inv have "map fst (raw_message_data st) = map fst (message_stamps st)"
    unfolding lengths_agree_def by (auto dest: list_all2_keys)
  then have "set (map fst (raw_message_data st)) = set (map fst (message_stamps st))"
    by simp
  then have "fst ` set (raw_message_data st) = fst ` set (message_stamps st)"
    by simp
  with seen show ?thesis by (simp add: read_record_def)
qed

lemma read_record_unseen:
  "topic \<notin> fst ` set (raw_message_data st) \<Longrightarrow> lengths_agree st \<Longrightarrow>
   read_record gm cat (topic, d, t) st =
     (case topic_type_from_name cat topic of
        Inl e \<Rightarrow> Inl e
      | Inr type_name \<Rightarrow>
          (case gm type_name of
             Inl e \<Rightarrow> Inl e
           | Inr ty \<Rightarrow>
               Inr \<lparr>raw_message_data = raw_message_data st @ [(topic, \<lparr>message_type = ty, raw_data = [d]\<rparr>)],
                    message_stamps = message_stamps st @ [(topic, [t])]\<rparr>))"
proof -
  assume unseen: "topic \<notin> fst ` set (raw_message_data st)" and inv: "lengths_agree st"
  from inv have "map fst (raw_message_data st) = map fst (message_stamps st)"
    unfolding lengths_agree_def by (auto dest: list_all2_keys)
  then have "set (map fst (raw_message_data st)) = set (map fst (message_stamps st))"
    by simp
  then have "fst ` set (raw_message_data st) = fst ` set (message_stamps st)"
    by simp
  with unseen have unseen': "topic \<notin> fst ` set (message_stamps st)" by simp
  have me: "AList.map_entry topic f (al @ [(topic, v)]) = al @ [(topic, f v)]"
    if "topic \<notin> fst ` set al" for f :: "'x \<Rightarrow> 'x" and al v
    using that by (induction al) auto
  show ?thesis
    using unseen unseen'
    by (simp add: read_record_def update_new_key me split: sum.splits)
qed


lemma topic_type_from_name_Inr: "topic_type_from_name cat topic = Inr tn \<Longrightarrow> topic \<in> fst ` set cat"
  by (induction cat) (auto split: if_splits)

lemma topic_type_from_name_missing:
  "topic \<notin> fst ` set cat \<Longrightarrow>
   topic_type_from_name cat topic = Inl (ValueError (''Topic '' @ quoted topic @ '' was not found in the bag''))"
  by (induction cat) auto

lemma keys_agree: "lengths_agree st \<Longrightarrow> map fst (message_stamps st) = map fst (raw_message_data st)"
  unfolding lengths_agree_def by (auto dest: list_all2_keys)

lemma read_record_seen_step:
  assumes seen: "topic \<in> fst ` set (raw_message_data st)" and inv: "lengths_agree st"
    and step: "read_record gm cat (topic, d, t) st = Inr st'"
  shows "lengths_agree st'"
    and "raw_of st' = (raw_of st)(topic := raw_of st topic @ [d])"
    and "stamps_of st' = (stamps_of st)(topic := stamps_of st topic @ [t])"
    and "map fst (raw_message_data st') = map fst (raw_message_data st)"
proof -
  from read_record_seen [OF seen inv, of gm cat d t] step
  have st': "st' = \<lparr>raw_message_data =
            AList.map_entry topic (\<lambda>e. e\<lparr>raw_data := raw_data e @ [d]\<rparr>) (raw_message_data st),
          message_stamps = AList.map_entry topic (\<lambda>ts. ts @ [t]) (message_stamps st)\<rparr>"
    by simp
  from inv have all2: "list_all2 (\<lambda>re se. fst re = fst se \<and> length (raw_data (snd re)) = length (snd se))
        (raw_message_data st) (message_stamps st)"
    and dist: "distinct (map fst (raw_message_data st))"
    by (simp_all add: lengths_agree_def)
  have "list_all2 (\<lambda>re se. fst re = fst se \<and> length (raw_data (snd re)) = length (snd se))
        (AList.map_entry topic (\<lambda>e. e\<lparr>raw_data := raw_data e @ [d]\<rparr>) (raw_message_data st))
        (AList.map_entry topic (\<lambda>ts. ts @ [t]) (message_stamps st))"
    by (rule list_all2_map_entry [OF all2]) auto
  with dist show "lengths_agree st'"
    by (simp add: st' lengths_agree_def map_fst_map_entry)
  from seen obtain e where e: "map_of (raw_message_data st) topic = Some e"
    by (cases "map_of (raw_message_data st) topic") (simp_all add: map_of_eq_None_iff)
  from keys_agree [OF inv]
  have "set (map fst (message_stamps st)) = set (map fst (raw_message_data st))" by simp
  with seen have "topic \<in> fst ` set (message_stamps st)" by simp
  then obtain ts where ts: "map_of (message_stamps st) topic = Some ts"
    by (cases "map_of (message_stamps st) topic") (simp_all add: map_of_eq_None_iff)
  show "raw_of st' = (raw_of st)(topic := raw_of st topic @ [d])"
    by (rule ext) (simp add: raw_of_def st' AList.map_of_map_entry e)
  show "stamps_of st' = (stamps_of st)(topic := stamps_of st topic @ [t])"
    by (rule ext) (simp add: stamps_of_def st' AList.map_of_map_entry ts)
  show "map fst (raw_message_data st') = map fst (raw_message_data st)"
    by (simp add: st' map_fst_map_entry)
qed

lemma read_record_unseen_step:
  assumes unseen: "topic \<notin> fst ` set (raw_message_data st)" and inv: "lengths_agree st"
    and step: "read_record gm cat (topic, d, t) st = Inr st'"
  shows "lengths_agree st'"
    and "raw_of st' = (raw_of st)(topic := raw_of st topic @ [d])"
    and "stamps_of st' = (stamps_of st)(topic := stamps_of st topic @ [t])"
    and "map fst (raw_message_data st') = map fst (raw_message_data st) @ [topic]"
    and "topic \<in> fst ` set cat"
proof -
  from read_record_unseen [OF unseen inv, of gm cat d t] step
  obtain tn ty where tn: "topic_type_from_name cat topic = Inr tn"
    and st': "st' = \<lparr>raw_message_data = raw_message_data st @ [(topic, \<lparr>message_type = ty, raw_data = [d]\<rparr>)],
                    message_stamps = message_stamps st @ [(topic, [t])]\<rparr>"
    by (auto split: sum.splits)
  from tn show "topic \<in> fst ` set cat" by (rule topic_type_from_name_Inr)
  from inv have all2: "list_all2 (\<lambda>re se. fst re = fst se \<and> length (raw_data (snd re)) = length (snd se))
        (raw_message_data st) (message_stamps st)"
    and dist: "distinct (map fst (raw_message_data st))"
    by (simp_all add: lengths_agree_def)
  from all2 dist unseen show "lengths_agree st'"
    by (simp add: st' lengths_agree_def list_all2_appendI)
  from unseen have none: "map_of (raw_message_data st) topic = None"
    by (simp add: map_of_eq_None_iff)
  from keys_agree [OF inv]
  have "set (map fst (message_stamps st)) = set (map fst (raw_message_data st))" by simp
  with unseen have "topic \<notin> fst ` set (message_stamps st)" by simp
  then have none': "map_of (message_stamps st) topic = None"
    by (simp add: map_of_eq_None_iff)
  show "raw_of st' = (raw_of st)(topic := raw_of st topic @ [d])"
    by (rule ext) (simp add: raw_of_def st' none map_add_def split: option.splits)
  show "stamps_of st' = (stamps_of st)(topic := stamps_of st topic @ [t])"
    by (rule ext) (simp add: stamps_of_def st' none' map_add_def split: option.splits)
  show "map fst (raw_message_data st') = map fst (raw_message_data st) @ [topic]"
    by (simp add: st')
qed

lemma read_record_step:
  assumes inv: "lengths_agree st" and step: "read_record gm cat (topic, d, t) st = Inr st'"
  shows "lengths_agree st'"
    and "raw_of st' = (raw_of st)(topic := raw_of st topic @ [d])"
    and "stamps_of st' = (stamps_of st)(topic := stamps_of st topic @ [t])"
    and "fst ` set (raw_message_data st') = insert topic (fst ` set (raw_message_data st))"
    and "topic \<in> fst ` set (raw_message_data st) \<or> topic \<in> fst ` set cat"
proof -
  have "lengths_agree st' \<and> raw_of st' = (raw_of st)(topic := raw_of st topic @ [d]) \<and>
    stamps_of st' = (stamps_of st)(topic := stamps_of st topic @ [t]) \<and>
    fst ` set (raw_message_data st') = insert topic (fst ` set (raw_message_data st)) \<and>
    (topic \<in> fst ` set (raw_message_data st) \<or> topic \<in> fst ` set cat)"
  proof (cases "topic \<in> fst ` set (raw_message_data st)")
    case True
    from read_record_seen_step(4) [OF True inv step]
    have "set (map fst (raw_message_data st')) = set (map fst (raw_message_data st))" by simp
    then have "fst ` set (raw_message_data st') = fst ` set (raw_message_data st)" by simp
    with read_record_seen_step(1-3) [OF True inv step] True show ?thesis
      by (simp add: insert_absorb)
  next
    case False
    from read_record_unseen_step(4) [OF False inv step]
    have "set (map fst (raw_message_data st')) = set (map fst (raw_message_data st) @ [topic])" by simp
    then have "fst ` set (raw_message_data st') = insert topic (fst ` set (raw_message_data st))" by simp
    with read_record_unseen_step(1-3,5) [OF False inv step] show ?thesis
      by simp
  qed
  then show "lengths_agree st'"
    and "raw_of st' = (raw_of st)(topic := raw_of st topic @ [d])"
    and "stamps_of st' = (stamps_of st)(topic := stamps_of st topic @ [t])"
    and "fst ` set (raw_message_data st') = insert topic (fst ` set (raw_message_data st))"
    and "topic \<in> fst ` set (raw_message_data st) \<or> topic \<in> fst ` set cat"
    by simp_all
qed


lemma read_all_append:
  "read_all gm cat (xs @ ys) st =
     (case read_all gm cat xs st of Inl e \<Rightarrow> Inl e | Inr st' \<Rightarrow> read_all gm cat ys st')"
  by (induction xs arbitrary: st) (auto split: sum.splits)

lemma read_all_collects:
  "read_all gm cat recs st = Inr st' \<Longrightarrow> lengths_agree st \<Longrightarrow>
   lengths_agree st' \<and>
   (\<forall>topic. raw_of st' topic = raw_of st topic @ map (fst \<circ> snd) (filter (\<lambda>r. fst r = topic) recs)) \<and>
   (\<forall>topic. stamps_of st' topic =
      stamps_of st topic @ map (snd \<circ> snd) (filter (\<lambda>r. fst r = topic) recs)) \<and>
   fst ` set (raw_message_data st') = fst ` set (raw_message_data st) \<union> fst ` set recs \<and>
   fst ` set recs \<subseteq> fst ` set (raw_message_data st) \<union> fst ` set cat"
proof (induction recs arbitrary: st)
  case Nil
  then show ?case by simp
next
  case (Cons r recs)
  obtain topic d t where r: "r = (topic, d, t)" by (cases r)
  from Cons.prems(1) r obtain st1 where step: "read_record gm cat (topic, d, t) st = Inr st1"
    and rest: "read_all gm cat recs st1 = Inr st'"
    by (auto split: sum.splits)
  note s = read_record_step [OF Cons.prems(2) step]
  from Cons.IH [OF rest s(1)] have IH:
    "lengths_agree st'"
    "\<And>x. raw_of st' x = raw_of st1 x @ map (fst \<circ> snd) (filter (\<lambda>r. fst r = x) recs)"
    "\<And>x. stamps_of st' x = stamps_of st1 x @ map (snd \<circ> snd) (filter (\<lambda>r. fst r = x) recs)"
    "fst ` set (raw_message_data st') = fst ` set (raw_message_data st1) \<union> fst ` set recs"
    "fst ` set recs \<subseteq> fst ` set (raw_message_data st1) \<union> fst ` set cat"
    by simp_all
  show ?case
  proof (intro conjI allI)
    show "lengths_agree st'" by (rule IH(1))
    show "raw_of st' x = raw_of st x @ map (fst \<circ> snd) (filter (\<lambda>r. fst r = x) (r # recs))" for x
      by (simp add: IH(2) s(2) r)
    show "stamps_of st' x = stamps_of st x @ map (snd \<circ> snd) (filter (\<lambda>r. fst r = x) (r # recs))" for x
      by (simp add: IH(3) s(3) r)
    show "fst ` set (raw_message_data st') = fst ` set (raw_message_data st) \<union> fst ` set (r # recs)"
      by (simp add: IH(4) s(4) r)
    show "fst ` set (r # recs) \<subseteq> fst ` set (raw_message_data st) \<union> fst ` set cat"
      using IH(5) s(4,5) by (auto simp: r)
  qed
qed

lemma lengths_agree_no_topics: "lengths_agree no_topics"
  by (simp add: lengths_agree_def no_topics_def)

lemma lengths_agree_map_of:
  "list_all2 (\<lambda>re se. fst re = fst se \<and> length (raw_data (snd re)) = length (snd se)) xs ys \<Longrightarrow>
   (case map_of xs k of None \<Rightarrow> 0 | Some e \<Rightarrow> length (raw_data e)) =
   (case map_of ys k of None \<Rightarrow> 0 | Some ts \<Rightarrow> length ts)"
  by (induction rule: list_all2_induct) auto

lemma lengths_agree_sequences:
  "lengths_agree st \<Longrightarrow> length (raw_of st topic) = length (stamps_of st topic)"
proof -
  assume "lengths_agree st"
  then have "list_all2 (\<lambda>re se. fst re = fst se \<and> length (raw_data (snd re)) = length (snd se))
      (raw_message_data st) (message_stamps st)"
    by (simp add: lengths_agree_def)
  from lengths_agree_map_of [OF this, of topic] show ?thesis
    by (simp add: raw_of_def stamps_of_def split: option.splits)
qed

text \<open>
  Claim C4. After every record of the collection pass (every prefix of the bag that is
  read without an exception), both dictionaries have the same topics and, for every
  topic, as many raw records as timestamps: they are the data and the timestamps of that
  topic's records, in reading order. Reading one more record appends its data and its
  timestamp to the sequences of its topic and leaves every other topic alone.
\<close>

theorem collection_keeps_lengths_equal:
  "read_all gm cat (take k records) no_topics = Inr st \<Longrightarrow>
   lengths_agree st \<and>
   (\<forall>topic. length (raw_of st topic) = length (stamps_of st topic)) \<and>
   (\<forall>topic. raw_of st topic = map (fst \<circ> snd) (filter (\<lambda>r. fst r = topic) (take k records)) \<and>
            stamps_of st topic = map (snd \<circ> snd) (filter (\<lambda>r. fst r = topic) (take k records))) \<and>
   (\<forall>topic d t st'. k < length records \<longrightarrow> records ! k = (topic, d, t) \<longrightarrow>
      read_all gm cat (take (Suc k) records) no_topics = Inr st' \<longrightarrow>
      raw_of st' = (raw_of st)(topic := raw_of st topic @ [d]) \<and>
      stamps_of st' = (stamps_of st)(topic := stamps_of st topic @ [t]))"
proof -
  assume run: "read_all gm cat (take k records) no_topics = Inr st"
  note c = read_all_collects [OF run lengths_agree_no_topics]
  have empty: "raw_of no_topics x = []" "stamps_of no_topics x = []" for x :: string
    by (simp_all add: raw_of_def stamps_of_def no_topics_def)
  have inv: "lengths_agree st" using c by simp
  have step: "raw_of st' = (raw_of st)(topic := raw_of st topic @ [d]) \<and>
      stamps_of st' = (stamps_of st)(topic := stamps_of st topic @ [t])"
    if "k < length records" "records ! k = (topic, d, t)"
      "read_all gm cat (take (Suc k) records) no_topics = Inr st'" for topic d t st'
  proof -
    from that(1,2) have "take (Suc k) records = take k records @ [(topic, d, t)]"
      by (simp add: take_Suc_conv_app_nth)
    with that(3) run have "read_record gm cat (topic, d, t) st = Inr st'"
      by (simp add: read_all_append split: sum.splits)
    from read_record_step(2,3) [OF inv this] show ?thesis by simp
  qed
  show ?thesis
  proof (intro conjI allI impI)
    show "lengths_agree st" by (rule inv)
    show "length (raw_of st topic) = length (stamps_of st topic)" for topic
      by (rule lengths_agree_sequences [OF inv])
    show "raw_of st topic = map (fst \<circ> snd) (filter (\<lambda>r. fst r = topic) (take k records))" for topic
      using c by (simp add: empty)
    show "stamps_of st topic = map (snd \<circ> snd) (filter (\<lambda>r. fst r = topic) (take k records))" for topic
      using c by (simp add: empty)
  qed (use step in blast)+
qed


theorem collection_keeps_lengths_equal_witness:
  "read_all (get_message demo_world) (get_all_topics_and_types demo_world)
      (take 3 (bag_records demo_world)) no_topics =
     Inr \<lparr>raw_message_data =
            [(''/odom'', \<lparr>message_type = ''nav_msgs/msg/Odometry'', raw_data = [1, 3]\<rparr>),
             (''/imu'', \<lparr>message_type = ''sensor_msgs/msg/Imu'', raw_data = [2]\<rparr>)],
          message_stamps = [(''/odom'', [30, 10]), (''/imu'', [5])]\<rparr> \<and>
   lengths_agree
     \<lparr>raw_message_data =
        [(''/odom'', \<lparr>message_type = ''nav_msgs/msg/Odometry'', raw_data = [1, 3 :: int]\<rparr>),
         (''/imu'', \<lparr>message_type = ''sensor_msgs/msg/Imu'', raw_data = [2]\<rparr>)],
      message_stamps = [(''/odom'', [30, 10]), (''/imu'', [5])]\<rparr> \<and>
   length (raw_of
     \<lparr>raw_message_data =
        [(''/odom'', \<lparr>message_type = ''nav_msgs/msg/Odometry'', raw_data = [1, 3 :: int]\<rparr>),
         (''/imu'', \<lparr>message_type = ''sensor_msgs/msg/Imu'', raw_data = [2]\<rparr>)],
      message_stamps = [(''/odom'', [30, 10]), (''/imu'', [5])]\<rparr> ''/odom'') = 2 \<and>
   length (stamps_of
     \<lparr>raw_message_data =
        [(''/odom'', \<lparr>message_type = ''nav_msgs/msg/Odometry'', raw_data = [1, 3 :: int]\<rparr>),
         (''/imu'', \<lparr>message_type = ''sensor_msgs/msg/Imu'', raw_data = [2]\<rparr>)],
      message_stamps = [(''/odom'', [30, 10]), (''/imu'', [5])]\<rparr> ''/odom'') = 2"
proof -
  have run: "read_all (get_message demo_world) (get_all_topics_and_types demo_world)
      (take 3 (bag_records demo_world)) no_topics =
     Inr \<lparr>raw_message_data =
            [(''/odom'', \<lparr>message_type = ''nav_msgs/msg/Odometry'', raw_data = [1, 3]\<rparr>),
             (''/imu'', \<lparr>message_type = ''sensor_msgs/msg/Imu'', raw_data = [2]\<rparr>)],
          message_stamps = [(''/odom'', [30, 10]), (''/imu'', [5])]\<rparr>"
    by (simp add: demo_world_def no_topics_def read_record_def)
  from collection_keeps_lengths_equal [OF run] run show ?thesis
    by (simp add: raw_of_def stamps_of_def)
qed

lemma read_all_missing_topic:
  assumes "(topic, d, t) \<in> set recs" and "topic \<notin> fst ` set cat"
  shows "\<exists>e. read_all gm cat recs no_topics = Inl e"
proof (cases "read_all gm cat recs no_topics")
  case (Inl e)
  then show ?thesis by simp
next
  case (Inr st)
  note c = read_all_collects [OF Inr lengths_agree_no_topics]
  from c have "fst ` set recs \<subseteq> fst ` set cat" by (simp add: no_topics_def)
  with assms show ?thesis by force
qed

lemma read_all_first_missing_topic:
  assumes pre: "read_all gm cat pre no_topics = Inr st" and missing: "topic \<notin> fst ` set cat"
  shows "read_all gm cat (pre @ (topic, d, t) # post) no_topics =
           Inl (ValueError (''Topic '' @ quoted topic @ '' was not found in the bag''))"
proof -
  note c = read_all_collects [OF pre lengths_agree_no_topics]
  from c have inv: "lengths_agree st" by simp
  from c have "fst ` set (raw_message_data st) = fst ` set pre" by (simp add: no_topics_def)
  moreover from c have "fst ` set pre \<subseteq> fst ` set cat" by (simp add: no_topics_def)
  ultimately have unseen: "topic \<notin> fst ` set (raw_message_data st)" using missing by auto
  have "read_record gm cat (topic, d, t) st =
      Inl (ValueError (''Topic '' @ quoted topic @ '' was not found in the bag''))"
    by (simp add: read_record_unseen [OF unseen inv] topic_type_from_name_missing [OF missing])
  then show ?thesis by (simp add: read_all_append pre)
qed

text \<open>
  Claim C6. A record whose topic is not in the bag's catalogue makes the run raise and
  write no file; when the records ahead of the first such record are read without an
  exception, the run ends with the \<^verbatim>\<open>ValueError\<close> of \<^verbatim>\<open>topic_type_from_name\<close>. For
  a topic that is already a key of \<^verbatim>\<open>raw_message_data\<close> the record is stored whatever
  the catalogue and \<^verbatim>\<open>get_message\<close> are: the lookup is made only for a new topic.
\<close>

theorem missing_topic_aborts_before_writing:
  "((topic, d, t) \<in> set (bag_records w) \<and> topic \<notin> fst ` set (get_all_topics_and_types w) \<longrightarrow>
      raised (main w argv) \<noteq> None \<and> files_written (main w argv) = []) \<and>
   (parse_args (cpu_count w) argv = Inr args \<and> bag_records w = pre @ (topic, d, t) # post \<and>
    read_all (get_message w) (get_all_topics_and_types w) pre no_topics = Inr st \<and>
    topic \<notin> fst ` set (get_all_topics_and_types w) \<longrightarrow>
      main w argv =
        \<lparr>raised = Some (ValueError (''Topic '' @ quoted topic @ '' was not found in the bag'')),
         output_dir_created = True, bag_opened = True, files_written = []\<rparr>) \<and>
   (topic \<in> fst ` set (raw_message_data st0) \<longrightarrow>
      (\<exists>st'. \<forall>gm cat. read_record gm cat (topic, d, t) st0 = Inr st'))"
proof (intro conjI impI)
  assume a: "(topic, d, t) \<in> set (bag_records w) \<and> topic \<notin> fst ` set (get_all_topics_and_types w)"
  then obtain e where
    "read_all (get_message w) (get_all_topics_and_types w) (bag_records w) no_topics = Inl e"
    using read_all_missing_topic [of topic d t "bag_records w" "get_all_topics_and_types w" "get_message w"]
    by auto
  then show "raised (main w argv) \<noteq> None" and "files_written (main w argv) = []"
    by (simp_all add: main_def aborted_def split: sum.splits)
next
  assume a: "parse_args (cpu_count w) argv = Inr args \<and> bag_records w = pre @ (topic, d, t) # post \<and>
    read_all (get_message w) (get_all_topics_and_types w) pre no_topics = Inr st \<and>
    topic \<notin> fst ` set (get_all_topics_and_types w)"
  then have "read_all (get_message w) (get_all_topics_and_types w) (bag_records w) no_topics =
      Inl (ValueError (''Topic '' @ quoted topic @ '' was not found in the bag''))"
    using read_all_first_missing_topic [of "get_message w" "get_all_topics_and_types w" pre st topic d t post]
    by simp
  with a show "main w argv =
        \<lparr>raised = Some (ValueError (''Topic '' @ quoted topic @ '' was not found in the bag'')),
         output_dir_created = True, bag_opened = True, files_written = []\<rparr>"
    by (simp add: main_def aborted_def)
next
  assume "topic \<in> fst ` set (raw_message_data st0)"
  then show "\<exists>st'. \<forall>gm cat. read_record gm cat (topic, d, t) st0 = Inr st'"
    by (simp add: read_record_def)
qed


theorem missing_topic_aborts_before_writing_witness:
  "(''/imu'', 2, 5) \<in> set (bag_records (demo_world\<lparr>get_all_topics_and_types := [(''/odom'', ''nav_msgs/msg/Odometry'')]\<rparr>)) \<and>
   ''/imu'' \<notin> fst ` set (get_all_topics_and_types (demo_world\<lparr>get_all_topics_and_types := [(''/odom'', ''nav_msgs/msg/Odometry'')]\<rparr>)) \<and>
   main (demo_world\<lparr>get_all_topics_and_types := [(''/odom'', ''nav_msgs/msg/Odometry'')]\<rparr>) demo_cli =
     \<lparr>raised = Some (ValueError (''Topic '' @ quoted ''/imu'' @ '' was not found in the bag'')),
      output_dir_created = True, bag_opened = True, files_written = []\<rparr>"
  using missing_topic_aborts_before_writing
    [of "''/imu''" 2 5 "demo_world\<lparr>get_all_topics_and_types := [(''/odom'', ''nav_msgs/msg/Odometry'')]\<rparr>"
        demo_cli
        "\<lparr>ns_input = ''bag'', ns_output = ''out'', ns_s = ''mcap'', ns_format = ''csv'', ns_cores = Cores_int 4\<rparr>"
        "[(''/odom'', 1, 30)]" "[(''/odom'', 3, 10), (''/odom'', 4, 20)]"
        "\<lparr>raw_message_data = [(''/odom'', \<lparr>message_type = ''nav_msgs/msg/Odometry'', raw_data = [1]\<rparr>)],
          message_stamps = [(''/odom'', [30])]\<rparr>" no_topics,
     THEN conjunct2, THEN conjunct1]
  by (simp add: demo_world_def demo_cli_def parse_args_def choice_def no_topics_def read_record_def)

subsection \<open>Flattening, joining and sorting\<close>


lemma normalise_distinct:
  "distinct (map fst nd) \<Longrightarrow> distinct (map fst (normalise_json v ks nd))"
  "distinct (map fst nd) \<Longrightarrow> distinct (map fst (normalise_items kvs ks nd))"
  by (induction v ks nd and kvs ks nd rule: normalise_json_normalise_items.induct)
    (auto simp: AList.distinct_update)


lemma top_dict_distinct: "distinct (map fst acc) \<Longrightarrow> distinct (map fst (top_dict d acc))"
  by (induction d acc rule: top_dict.induct) (auto simp: AList.distinct_update)



lemma dict_merge_distinct: "distinct (map fst a) \<Longrightarrow> distinct (map fst (dict_merge a b))"
  unfolding dict_merge_def by (induction b arbitrary: a) (auto simp: AList.distinct_update)


lemma normalise_json_ordered_distinct: "distinct (map fst (normalise_json_ordered d))"
  by (simp add: normalise_json_ordered_def dict_merge_distinct top_dict_distinct)












lemma join_clash: "''timestamp'' \<in> set (fcolumns df) \<Longrightarrow>
  join stamps df = Inl (ValueError ''columns overlap but no suffix specified'')"
  by (simp add: join_def)
















text \<open>
  Claim C10. The file name is defined for every non-empty topic name and is an
  \<^verbatim>\<open>IndexError\<close> for the empty one; \<^verbatim>\<open>save_to_file\<close> returns only for a non-empty topic
  name, and for the empty one (when the join does not raise first) it raises that
  \<^verbatim>\<open>IndexError\<close>.
\<close>

theorem file_name_needs_nonempty_topic:
  "(topic_name \<noteq> [] \<longrightarrow> (\<exists>fn. file_name topic_name = Inr fn)) \<and>
   file_name [] = Inl IndexError \<and>
   (save_to_file sorter file_format output_folder data = Inr r \<longrightarrow> data_topic_name data \<noteq> []) \<and>
   (data_topic_name data = [] \<longrightarrow>
    ''timestamp'' \<notin> set (fcolumns (json_normalize (data_parsed_messages data))) \<longrightarrow>
      save_to_file sorter file_format output_folder data = Inl IndexError)"
proof (intro conjI impI)
  assume "topic_name \<noteq> []"
  then show "\<exists>fn. file_name topic_name = Inr fn" by (simp add: file_name_nonempty)
next
  show "file_name [] = Inl IndexError" by (simp add: file_name_def)
next
  assume "save_to_file sorter file_format output_folder data = Inr r"
  then show "data_topic_name data \<noteq> []"
    by (auto simp: save_to_file_def file_name_def split: sum.splits)
next
  assume "data_topic_name data = []"
    "''timestamp'' \<notin> set (fcolumns (json_normalize (data_parsed_messages data)))"
  then show "save_to_file sorter file_format output_folder data = Inl IndexError"
    by (simp add: save_to_file_def df_joined_def join_def file_name_def)
qed

theorem file_name_needs_nonempty_topic_witness:
  "file_name ''/imu'' = Inr ''imu'' \<and>
   save_to_file argsort_stable ''csv'' ''out''
     \<lparr>data_topic_name = [], data_parsed_messages = [[(''x'', Leaf (1::int))]],
      data_message_stamps = [5]\<rparr> = Inl IndexError"
  using file_name_needs_nonempty_topic [of "''/imu''" argsort_stable "''csv''" "''out''"
      "\<lparr>data_topic_name = [], data_parsed_messages = [[(''x'', Leaf (1::int))]],
        data_message_stamps = [5]\<rparr>"]
  by (simp add: json_normalize_def normalise_json_ordered_def dict_merge_def
      file_name_def replace_char_def lstrip_def)

subsection \<open>The write stage\<close>













end
